theory Spec2Isabelle
  imports Main "HOL-Library.Multiset"
begin

section \<open>The gallery script (src/js/script.js)\<close>

text \<open>
  The script keeps one cache of entries, computes a window of dates ending on a chosen end
  date, filters and sorts the cache, and writes tiles and a detail overlay into the page.
  JavaScript strings are modelled as \<^typ>\<open>string\<close>, numbers that the script only uses as
  integers as \<^typ>\<open>int\<close>, a number that may be \<open>NaN\<close> as \<^typ>\<open>int option\<close>, and the
  page as a record that every operation takes and returns.
\<close>

subsection \<open>Constants\<close>

definition GALLERY_DAYS :: int where
  "GALLERY_DAYS = 9"

subsection \<open>The Date object of the language\<close>

text \<open>
  The script uses \<open>new Date(string)\<close>, \<open>getDate\<close>, \<open>setDate\<close> and \<open>toISOString\<close>.
  They are modelled after the ECMAScript definitions: a time value is a number of
  milliseconds since 1970-01-01T00:00:00Z, \<open>None\<close> is the invalid date (\<open>NaN\<close>).
\<close>

definition msPerDay :: int where
  "msPerDay = 86400000"

definition Day :: "int \<Rightarrow> int" where
  "Day t = t div msPerDay"

definition TimeWithinDay :: "int \<Rightarrow> int" where
  "TimeWithinDay t = t mod msPerDay"

definition DaysInYear :: "int \<Rightarrow> int" where
  "DaysInYear y =
     (if y mod 4 \<noteq> 0 then 365
      else if y mod 100 \<noteq> 0 then 366
      else if y mod 400 \<noteq> 0 then 365
      else 366)"

definition DayFromYear :: "int \<Rightarrow> int" where
  "DayFromYear y =
     365 * (y - 1970) + (y - 1969) div 4 - (y - 1901) div 100 + (y - 1601) div 400"

text \<open>
  ECMAScript defines the year of a time value as the largest \<open>y\<close> whose first day is not
  after it. \<open>YearFromDay\<close> computes it: an estimate from the mean length of a year, moved
  by one year where the estimate is off (lemma \<open>YearFromDay_bounds\<close> shows that it is that
  year).
\<close>

definition YearFromDay :: "int \<Rightarrow> int" where
  "YearFromDay d =
     (let y = 1970 + (400 * d) div 146097
      in if d < DayFromYear y then y - 1
         else if DayFromYear (y + 1) \<le> d then y + 1
         else y)"

definition YearFromTime :: "int \<Rightarrow> int" where
  "YearFromTime t = YearFromDay (Day t)"

definition InLeapYear :: "int \<Rightarrow> int" where
  "InLeapYear t = (if DaysInYear (YearFromTime t) = 366 then 1 else 0)"

definition DayWithinYear :: "int \<Rightarrow> int" where
  "DayWithinYear t = Day t - DayFromYear (YearFromTime t)"

definition MonthFromTime :: "int \<Rightarrow> int" where
  "MonthFromTime t =
     (let d = DayWithinYear t; l = InLeapYear t
      in if d < 31 then 0
         else if d < 59 + l then 1
         else if d < 90 + l then 2
         else if d < 120 + l then 3
         else if d < 151 + l then 4
         else if d < 181 + l then 5
         else if d < 212 + l then 6
         else if d < 243 + l then 7
         else if d < 273 + l then 8
         else if d < 304 + l then 9
         else if d < 334 + l then 10
         else 11)"

definition DateFromTime :: "int \<Rightarrow> int" where
  "DateFromTime t =
     (let d = DayWithinYear t; l = InLeapYear t; m = MonthFromTime t
      in if m = 0 then d + 1
         else if m = 1 then d - 30
         else if m = 2 then d - 58 - l
         else if m = 3 then d - 89 - l
         else if m = 4 then d - 119 - l
         else if m = 5 then d - 150 - l
         else if m = 6 then d - 180 - l
         else if m = 7 then d - 211 - l
         else if m = 8 then d - 242 - l
         else if m = 9 then d - 272 - l
         else if m = 10 then d - 303 - l
         else d - 333 - l)"

text \<open>The number of days of a year before its month \<open>m\<close> (0 is January).\<close>

definition DaysBeforeMonth :: "int \<Rightarrow> int \<Rightarrow> int" where
  "DaysBeforeMonth y m =
     (let l = (if DaysInYear y = 366 then 1 else 0)
      in if m = 0 then 0
         else if m = 1 then 31
         else if m = 2 then 59 + l
         else if m = 3 then 90 + l
         else if m = 4 then 120 + l
         else if m = 5 then 151 + l
         else if m = 6 then 181 + l
         else if m = 7 then 212 + l
         else if m = 8 then 243 + l
         else if m = 9 then 273 + l
         else if m = 10 then 304 + l
         else 334 + l)"

definition DaysInMonth :: "int \<Rightarrow> int \<Rightarrow> int" where
  "DaysInMonth y m =
     (if m = 11 then 31 else DaysBeforeMonth y (m + 1) - DaysBeforeMonth y m)"

text \<open>
  \<open>MakeDay year month date\<close>: the day number of the first of the month, plus \<open>date - 1\<close>;
  months outside 0..11 carry into the year.
\<close>

definition MakeDay :: "int \<Rightarrow> int \<Rightarrow> int \<Rightarrow> int" where
  "MakeDay year month date =
     (let ym = year + month div 12; mn = month mod 12
      in DayFromYear ym + DaysBeforeMonth ym mn + date - 1)"

definition MakeDate :: "int \<Rightarrow> int \<Rightarrow> int" where
  "MakeDate day time = day * msPerDay + time"

definition TimeClip :: "int \<Rightarrow> int option" where
  "TimeClip t = (if \<bar>t\<bar> > 8640000000000000 then None else Some t)"

text \<open>
  The host's time zone: the offset of local time from UTC in milliseconds, at a UTC time
  value (\<open>utc_offset\<close>) and at a local time value (\<open>local_offset\<close>). \<open>getDate\<close> and
  \<open>setDate\<close> work in local time, the parser of date-only strings and \<open>toISOString\<close> in
  UTC.
\<close>

record zone =
  utc_offset :: "int \<Rightarrow> int"
  local_offset :: "int \<Rightarrow> int"

definition LocalTime :: "zone \<Rightarrow> int \<Rightarrow> int" where
  "LocalTime tz t = t + utc_offset tz t"

definition UTC :: "zone \<Rightarrow> int \<Rightarrow> int" where
  "UTC tz t = t - local_offset tz t"

definition fixed_zone :: "int \<Rightarrow> zone" where
  "fixed_zone c = \<lparr>utc_offset = (\<lambda>_. c), local_offset = (\<lambda>_. c)\<rparr>"

text \<open>
  New York in 2024: four hours behind UTC from 2024-03-10T07:00Z until 2024-11-03T06:00Z
  (in local time from 03:00 on 10 March until 02:00 on 3 November), five hours otherwise.
\<close>

definition new_york_2024 :: zone where
  "new_york_2024 =
     \<lparr>utc_offset = (\<lambda>t. if 1710054000000 \<le> t \<and> t < 1730613600000 then - 14400000 else - 18000000),
      local_offset = (\<lambda>t. if 1710039600000 \<le> t \<and> t < 1730599200000 then - 14400000 else - 18000000)\<rparr>"

subsubsection \<open>Digits\<close>

definition is_digit :: "char \<Rightarrow> bool" where
  "is_digit c = (48 \<le> (of_char c :: nat) \<and> (of_char c :: nat) \<le> 57)"

definition digit_val :: "char \<Rightarrow> int" where
  "digit_val c = int (of_char c) - 48"

definition digit_char :: "nat \<Rightarrow> char" where
  "digit_char n = char_of (48 + n)"

text \<open>\<open>pad w n\<close>: the last \<open>w\<close> decimal digits of \<open>n\<close>, with leading zeros.\<close>

fun pad :: "nat \<Rightarrow> nat \<Rightarrow> string" where
  "pad 0 n = []"
| "pad (Suc w) n = pad w (n div 10) @ [digit_char (n mod 10)]"

text \<open>The decimal text of a non-negative integer, as string conversion of a number gives.\<close>

fun show_nat :: "nat \<Rightarrow> string" where
  "show_nat n = (if n < 10 then [digit_char n] else show_nat (n div 10) @ [digit_char (n mod 10)])"

declare show_nat.simps [simp del]

subsubsection \<open>Parsing and printing\<close>

text \<open>
  \<open>new Date(s)\<close> for the date-only form \<open>YYYY-MM-DD\<close> the script is written for (the
  form of the date input and of \<open>getTodayDate\<close>): midnight UTC of that day. A string
  that is not of this form, or names no day of the calendar, gives the invalid date.
  Engines accept further notations, and some a day past the end of its month; the model
  does not cover them, and no statement below depends on them.
\<close>

definition new_Date :: "string \<Rightarrow> int option" where
  "new_Date s =
     (if length s = 10 \<and> s ! 4 = CHR ''-'' \<and> s ! 7 = CHR ''-''
         \<and> is_digit (s ! 0) \<and> is_digit (s ! 1) \<and> is_digit (s ! 2) \<and> is_digit (s ! 3)
         \<and> is_digit (s ! 5) \<and> is_digit (s ! 6) \<and> is_digit (s ! 8) \<and> is_digit (s ! 9)
      then
        (let y = 1000 * digit_val (s ! 0) + 100 * digit_val (s ! 1)
                 + 10 * digit_val (s ! 2) + digit_val (s ! 3);
             m = 10 * digit_val (s ! 5) + digit_val (s ! 6);
             d = 10 * digit_val (s ! 8) + digit_val (s ! 9)
         in if 1 \<le> m \<and> m \<le> 12 \<and> 1 \<le> d \<and> d \<le> DaysInMonth y (m - 1)
            then TimeClip (MakeDate (MakeDay y (m - 1) d) 0)
            else None)
      else None)"

datatype error = RangeError

definition year_text :: "int \<Rightarrow> string" where
  "year_text y =
     (if 0 \<le> y \<and> y \<le> 9999 then pad 4 (nat y)
      else (if y < 0 then ''-'' else ''+'') @ pad 6 (nat \<bar>y\<bar>))"

definition date_text :: "int \<Rightarrow> string" where
  "date_text t =
     year_text (YearFromTime t) @ ''-'' @ pad 2 (nat (MonthFromTime t + 1))
       @ ''-'' @ pad 2 (nat (DateFromTime t))"

definition time_text :: "int \<Rightarrow> string" where
  "time_text t =
     (let w = TimeWithinDay t
      in pad 2 (nat (w div 3600000)) @ '':'' @ pad 2 (nat (w div 60000 mod 60))
           @ '':'' @ pad 2 (nat (w div 1000 mod 60)) @ ''.'' @ pad 3 (nat (w mod 1000)))"

definition toISOString :: "int option \<Rightarrow> error + string" where
  "toISOString d =
     (case d of
        None \<Rightarrow> Inl RangeError
      | Some t \<Rightarrow> Inr (date_text t @ ''T'' @ time_text t @ ''Z''))"

definition getDate :: "zone \<Rightarrow> int option \<Rightarrow> int option" where
  "getDate tz d = (case d of None \<Rightarrow> None | Some t \<Rightarrow> Some (DateFromTime (LocalTime tz t)))"

definition setDate :: "zone \<Rightarrow> int option \<Rightarrow> int option \<Rightarrow> int option" where
  "setDate tz d date =
     (case d of
        None \<Rightarrow> None
      | Some t0 \<Rightarrow>
          (case date of
             None \<Rightarrow> None
           | Some dt \<Rightarrow>
               (let t = LocalTime tz t0;
                    newDate = MakeDate (MakeDay (YearFromTime t) (MonthFromTime t) dt)
                                (TimeWithinDay t)
                in TimeClip (UTC tz newDate))))"

text \<open>\<open>s.split('T')[0]\<close>: the text before the first \<open>T\<close> (all of it when there is none).\<close>

definition split_T_0 :: "string \<Rightarrow> string" where
  "split_T_0 s = takeWhile (\<lambda>c. c \<noteq> CHR ''T'') s"

subsection \<open>Utility functions\<close>

definition getStartDate :: "zone \<Rightarrow> string \<Rightarrow> error + string" where
  "getStartDate tz endDateString =
     (let endDate = new_Date endDateString;
          endDate' = setDate tz endDate
                       (case getDate tz endDate of
                          None \<Rightarrow> None
                        | Some n \<Rightarrow> Some (n - (GALLERY_DAYS - 1)))
      in case toISOString endDate' of
           Inl e \<Rightarrow> Inl e
         | Inr s \<Rightarrow> Inr (split_T_0 s))"

subsection \<open>Strings, truthiness and sorting of the language\<close>

text \<open>
  The relational operators on two strings compare them code unit by code unit; a proper
  prefix is smaller.
\<close>

fun js_less :: "string \<Rightarrow> string \<Rightarrow> bool" where
  "js_less [] [] = False"
| "js_less [] (y # ys) = True"
| "js_less (x # xs) [] = False"
| "js_less (x # xs) (y # ys) =
     (if (of_char x :: nat) < of_char y then True
      else if (of_char y :: nat) < of_char x then False
      else js_less xs ys)"

definition js_le :: "string \<Rightarrow> string \<Rightarrow> bool" where
  "js_le a b = (\<not> js_less b a)"

definition js_ge :: "string \<Rightarrow> string \<Rightarrow> bool" where
  "js_ge a b = (\<not> js_less a b)"

text \<open>
  An optional string field is \<open>None\<close> when the entry has no such field. A missing field
  and the empty string are falsy; \<open>a || b\<close> is \<open>a\<close> when \<open>a\<close> is truthy, else \<open>b\<close>.
\<close>

definition truthy :: "string option \<Rightarrow> bool" where
  "truthy v = (case v of None \<Rightarrow> False | Some s \<Rightarrow> s \<noteq> [])"

definition js_or :: "string option \<Rightarrow> string \<Rightarrow> string" where
  "js_or v d = (case v of None \<Rightarrow> d | Some s \<Rightarrow> if s = [] then d else s)"

text \<open>
  \<open>Array.prototype.sort\<close> with a comparator: the sort is stable, and a comparator
  result of \<open>NaN\<close> counts as zero. The model inserts each element before the first later
  element it does not have to follow.
\<close>

definition SortCompare :: "int option \<Rightarrow> int" where
  "SortCompare v = (case v of None \<Rightarrow> 0 | Some n \<Rightarrow> n)"

fun sort_insert :: "('a \<Rightarrow> 'a \<Rightarrow> int option) \<Rightarrow> 'a \<Rightarrow> 'a list \<Rightarrow> 'a list" where
  "sort_insert cmp x [] = [x]"
| "sort_insert cmp x (y # ys) =
     (if SortCompare (cmp x y) \<le> 0 then x # y # ys else y # sort_insert cmp x ys)"

fun array_sort :: "('a \<Rightarrow> 'a \<Rightarrow> int option) \<Rightarrow> 'a list \<Rightarrow> 'a list" where
  "array_sort cmp [] = []"
| "array_sort cmp (x # xs) = sort_insert cmp x (array_sort cmp xs)"

subsection \<open>Entries and the page\<close>

record entry =
  date :: string
  title :: string
  explanation :: string
  media_type :: string
  url :: string
  hdurl :: "string option"
  thumbnail_url :: "string option"

text \<open>
  A gallery tile: the \<open>div\<close> that \<open>renderGallery\<close> creates, with the entry its click
  listener opens. A child of the modal's media container is a \<open>div\<close> (class name and
  markup) or an \<open>img\<close> (source and alternative text).
\<close>

record tile =
  className :: string
  data_index :: string
  click_item :: entry
  innerHTML :: string

datatype element = Div string string | Img string string

text \<open>
  The state the script reads and writes: the cache \<open>allAPODData\<close>, whether the loading,
  gallery and error elements carry the class \<open>hidden\<close>, the text of the error slot, the
  children of the gallery container, and the modal (whether it carries the class
  \<open>visible\<close>, its three text slots and the children of its media container).
\<close>

record page =
  allAPODData :: "entry list"
  loading_hidden :: bool
  gallery_hidden :: bool
  error_hidden :: bool
  errorText :: string
  gallery_children :: "tile list"
  modal_visible :: bool
  modalTitle :: string
  modalDate :: string
  modalExplanation :: string
  modalMedia_children :: "element list"

definition updateUIState :: "bool \<Rightarrow> string option \<Rightarrow> page \<Rightarrow> page" where
  "updateUIState isLoading errorMessage p =
     (let p1 = p\<lparr>loading_hidden := \<not> isLoading,
                 gallery_hidden := isLoading \<or> truthy errorMessage,
                 error_hidden := \<not> truthy errorMessage\<rparr>
      in if truthy errorMessage then p1\<lparr>errorText := the errorMessage\<rparr> else p1)"

subsection \<open>Gallery and rendering\<close>

definition newline :: string where
  "newline = [CHR 0x0A]"

definition icon :: string where
  \<open>icon = ''<svg xmlns="http://www.w3.org/2000/svg" viewBox="0 0 24 24" fill="currentColor"><path d="M6.3 2.841A1.5 1.5 0 0 1 7.643 2h8.714c.52 0 1.018.232 1.342.641l2.484 3.194a1.5 1.5 0 0 1 .117.75l-.946 5.86a1.5 1.5 0 0 1-1.464 1.255H4.729a1.5 1.5 0 0 1-1.464-1.255l-.946-5.86a1.5 1.5 0 0 1 .117-.75l2.484-3.194Zm-4.939 12.634a1.5 1.5 0 0 0-.254.912c.002.396.155.772.428 1.056l3.245 3.328a.75.75 0 0 0 1.036-.089l1.621-2.181a.75.75 0 0 0-.001-1.077l-1.636-1.78a.75.75 0 0 0-1.06-.017l-3.344 3.424Zm20.402 3.328a1.5 1.5 0 0 0 .428-1.056c.002-.396-.15-.772-.424-1.056l-3.344-3.424a.75.75 0 0 0-1.06.017l-1.636 1.78a.75.75 0 0 0-.001 1.077l1.621 2.181a.75.75 0 0 0 1.036.089l3.245-3.328Zm-4.85-8.484a.75.75 0 0 0-1.06 0l-.84.858a.75.75 0 0 0 0 1.06l.84.858a.75.75 0 0 0 1.06 0l.84-.858a.75.75 0 0 0 0-1.06l-.84-.858ZM12 9a1 1 0 1 0 0 2 1 1 0 0 0 0-2Z"/></svg>''\<close>

text \<open>The three shapes of a tile's media markup, as the template literals build them.\<close>

definition placeholder_markup :: string where
  \<open>placeholder_markup =
     ''<div class="media-placeholder">'' @ icon @ ''Video Content Available</div>''\<close>

definition thumbnail_markup :: "string \<Rightarrow> string \<Rightarrow> string" where
  \<open>thumbnail_markup thumbnailUrl item_title =
     newline @ ''                    <div class="media-placeholder">'' @ newline
     @ ''                        <img src="'' @ thumbnailUrl @ ''" alt="'' @ item_title
     @ '' Thumbnail" onerror="this.onerror=null; this.src='https://placehold.co/400x200/334155/f87171?text=Video+Content';" />''
     @ newline @ ''                        <div class="video-overlay">'' @ icon
     @ '' Click to Play</div>'' @ newline @ ''                    </div>''\<close>

definition image_markup :: "string \<Rightarrow> string \<Rightarrow> string" where
  \<open>image_markup item_url item_title =
     newline @ ''                <img src="'' @ item_url @ ''" alt="'' @ item_title @ ''" ''
     @ newline
     @ ''                     onerror="this.onerror=null; this.src='https://placehold.co/400x200/334155/e2e8f0?text=Image+Not+Available';" />''
     @ newline @ ''            ''\<close>

definition mediaHTML :: "entry \<Rightarrow> string" where
  "mediaHTML item =
     (if media_type item = ''video'' then
        (let thumbnailUrl = js_or (thumbnail_url item) ''placeholder''
         in if thumbnailUrl = ''placeholder'' then placeholder_markup
            else thumbnail_markup thumbnailUrl (title item))
      else image_markup (url item) (title item))"

definition item_markup :: "string \<Rightarrow> string \<Rightarrow> string \<Rightarrow> string" where
  \<open>item_markup media item_title item_date =
     newline @ ''            <div class="gallery-item-media">'' @ media @ ''</div>'' @ newline
     @ ''            <div class="gallery-item-details">'' @ newline
     @ ''                <h3>'' @ item_title @ ''</h3>'' @ newline
     @ ''                <p>'' @ item_date @ ''</p>'' @ newline
     @ ''            </div>'' @ newline @ ''        ''\<close>

definition itemElement :: "nat \<Rightarrow> entry \<Rightarrow> tile" where
  "itemElement index item =
     \<lparr>className = ''gallery-item'',
      data_index = show_nat index,
      click_item = item,
      innerHTML = item_markup (mediaHTML item) (title item) (date item)\<rparr>"

text \<open>The \<open>forEach\<close> loop of \<open>renderGallery\<close>: one tile appended per item, in order.\<close>

fun forEach_item :: "nat \<Rightarrow> entry list \<Rightarrow> page \<Rightarrow> page" where
  "forEach_item index [] p = p"
| "forEach_item index (item # rest) p =
     forEach_item (Suc index) rest
       (p\<lparr>gallery_children := gallery_children p @ [itemElement index item]\<rparr>)"

definition renderGallery :: "entry list \<Rightarrow> page \<Rightarrow> page" where
  "renderGallery data p =
     updateUIState False None (forEach_item 0 data (p\<lparr>gallery_children := []\<rparr>))"

text \<open>
  The comparator of the sort, \<open>new Date(b.date) - new Date(a.date)\<close>: \<open>NaN\<close> when
  either date is invalid.
\<close>

definition date_desc :: "entry \<Rightarrow> entry \<Rightarrow> int option" where
  "date_desc a b =
     (case new_Date (date b) of
        None \<Rightarrow> None
      | Some tb \<Rightarrow> (case new_Date (date a) of None \<Rightarrow> None | Some ta \<Rightarrow> Some (tb - ta)))"

text \<open>The filtered and sorted array \<open>filteredData\<close> of \<open>filterAndRenderGallery\<close>.\<close>

definition filteredData :: "string \<Rightarrow> string \<Rightarrow> entry list \<Rightarrow> entry list" where
  "filteredData startDateString endDateString cache =
     array_sort date_desc
       (filter (\<lambda>item. js_ge (date item) startDateString \<and> js_le (date item) endDateString)
          cache)"

definition insufficient_message :: "nat \<Rightarrow> string" where
  "insufficient_message n =
     ''Only found '' @ show_nat n
     @ '' entries. The selected date range might be too far in the past or data is missing.''"

text \<open>
  \<open>filterAndRenderGallery\<close> returns the page it leaves, or, when \<open>getStartDate\<close>
  throws, the error together with the page as it is at that moment.
\<close>

definition filterAndRenderGallery :: "zone \<Rightarrow> string \<Rightarrow> page \<Rightarrow> error \<times> page + page" where
  "filterAndRenderGallery tz endDateString p =
     (let p1 = updateUIState True None p;
          p2 = p1\<lparr>gallery_children := []\<rparr>;
          p3 = p2\<lparr>error_hidden := True\<rparr>
      in case getStartDate tz endDateString of
           Inl e \<Rightarrow> Inl (e, p3)
         | Inr startDateString \<Rightarrow>
             (let data = filteredData startDateString endDateString (allAPODData p3)
              in if int (length data) < GALLERY_DAYS
                 then Inr (updateUIState False (Some (insufficient_message (length data))) p3)
                 else Inr (renderGallery data p3)))"

subsection \<open>Modal functions\<close>

definition openModal :: "entry \<Rightarrow> page \<Rightarrow> page" where
  \<open>openModal item p =
     (let p1 = p\<lparr>modalTitle := title item, modalDate := date item,
                 modalExplanation := explanation item, modalMedia_children := []\<rparr>;
          p2 = (if media_type item = ''video'' then
                  p1\<lparr>modalMedia_children := modalMedia_children p1
                        @ [Div ''video-container''
                             (''<iframe src="'' @ url item @ ''" allowfullscreen></iframe>'')]\<rparr>
                else
                  (let imageUrl = js_or (hdurl item) (url item)
                   in p1\<lparr>modalMedia_children := modalMedia_children p1
                           @ [Img imageUrl (title item)]\<rparr>))
      in p2\<lparr>modal_visible := True\<rparr>)\<close>

definition closeModal :: "page \<Rightarrow> page" where
  "closeModal p = p\<lparr>modal_visible := False, modalMedia_children := []\<rparr>"

text \<open>
  The two listeners that dismiss the modal: a click on the modal (closes when the click's
  target is the modal element itself, outside its content) and a key press.
\<close>

definition on_modal_click :: "bool \<Rightarrow> page \<Rightarrow> page" where
  "on_modal_click target_is_modal p = (if target_is_modal then closeModal p else p)"

definition on_keydown :: "string \<Rightarrow> page \<Rightarrow> page" where
  "on_keydown key p = (if key = ''Escape'' \<and> modal_visible p then closeModal p else p)"

subsection \<open>Reading a decimal text, and example data\<close>

text \<open>The number a string of decimal digits denotes; used to state what a printed count says.\<close>

definition decimal_value :: "string \<Rightarrow> nat" where
  "decimal_value s = foldl (\<lambda>acc c. 10 * acc + (of_char c - 48)) 0 s"

text \<open>
  The example of the specification: ten image entries dated 2024-01-01 to 2024-01-10, and
  a page that holds a cache and shows nothing yet.
\<close>

definition example_entry :: "string \<Rightarrow> entry" where
  "example_entry d =
     \<lparr>date = d, title = ''Picture of '' @ d, explanation = ''About '' @ d,
      media_type = ''image'', url = ''img/'' @ d @ ''.jpg'',
      hdurl = Some (''img/'' @ d @ ''_hd.jpg''), thumbnail_url = None\<rparr>"

definition example_cache :: "entry list" where
  "example_cache =
     map example_entry
       [''2024-01-01'', ''2024-01-02'', ''2024-01-03'', ''2024-01-04'', ''2024-01-05'',
        ''2024-01-06'', ''2024-01-07'', ''2024-01-08'', ''2024-01-09'', ''2024-01-10'']"

definition blank_page :: "entry list \<Rightarrow> page" where
  "blank_page cache =
     \<lparr>allAPODData = cache, loading_hidden = True, gallery_hidden = False,
      error_hidden = True, errorText = [], gallery_children = [], modal_visible = False,
      modalTitle = [], modalDate = [], modalExplanation = [], modalMedia_children = []\<rparr>"

definition video_entry :: "string option \<Rightarrow> entry" where
  "video_entry thumb =
     \<lparr>date = ''2024-01-05'', title = ''A video'', explanation = ''About a video'',
      media_type = ''video'', url = ''https://example.org/embed/1'',
      hdurl = None, thumbnail_url = thumb\<rparr>"

section \<open>Calendar arithmetic\<close>

lemma div_step:
  fixes a k :: int
  assumes "0 < k"
  shows "(a + 1) div k = a div k + (if (a + 1) mod k = 0 then 1 else 0)"
proof -
  define q where "q = a div k"
  define r where "r = a mod k"
  have a: "a = k * q + r" unfolding q_def r_def by simp
  have r: "0 \<le> r" "r < k" unfolding r_def using assms by simp_all
  show ?thesis
  proof (cases "r = k - 1")
    case True
    then have e: "a + 1 = k * (q + 1) + 0" using a by (simp add: algebra_simps)
    have "(a + 1) div k = q + 1"
      by (rule int_div_pos_eq [OF e]) (use assms in simp_all)
    moreover have "(a + 1) mod k = 0"
      by (rule int_mod_pos_eq [OF e]) (use assms in simp_all)
    ultimately show ?thesis unfolding q_def by simp
  next
    case False
    then have lt: "r + 1 < k" using r by linarith
    have e: "a + 1 = k * q + (r + 1)" using a by linarith
    have "(a + 1) div k = q"
      by (rule int_div_pos_eq [OF e]) (use r lt in simp_all)
    moreover have "(a + 1) mod k = r + 1"
      by (rule int_mod_pos_eq [OF e]) (use r lt in simp_all)
    ultimately show ?thesis using r unfolding q_def by simp
  qed
qed

lemma div_bounds:
  fixes x k :: int
  assumes "0 < k"
  shows "k * (x div k) \<le> x" "x < k * (x div k) + k"
proof -
  have a: "x = k * (x div k) + x mod k" by simp
  have r: "0 \<le> x mod k" "x mod k < k" using assms by simp_all
  show "k * (x div k) \<le> x" using a r by linarith
  show "x < k * (x div k) + k" using a r by linarith
qed

lemma mod_shift: "(y - k * c) mod k = y mod (k::int)"
  by (metis diff_conv_add_uminus mult_minus_right mod_mult_self2)

lemma DaysInYear_cases: "DaysInYear y = 365 \<or> DaysInYear y = 366"
  by (simp add: DaysInYear_def)

lemma mod_dvd_trans:
  fixes y :: int
  assumes "y mod a = 0" "b dvd a"
  shows "y mod b = 0"
proof -
  have "a dvd y" using assms(1) by (simp add: dvd_eq_mod_eq_0)
  then have "b dvd y" using assms(2) dvd_trans by blast
  then show ?thesis by (simp add: dvd_eq_mod_eq_0)
qed

lemma DayFromYear_next: "DayFromYear (y + 1) = DayFromYear y + DaysInYear y"
proof -
  have s4: "y - 1969 + 1 = y - 4 * 492" by simp
  have s100: "y - 1901 + 1 = y - 100 * 19" by simp
  have s400: "y - 1601 + 1 = y - 400 * 4" by simp
  have 4: "(y - 1969 + 1) div 4 = (y - 1969) div 4 + (if y mod 4 = 0 then 1 else 0)"
    using div_step [of 4 "y - 1969"] unfolding s4 mod_shift by simp
  have 100: "(y - 1901 + 1) div 100 = (y - 1901) div 100 + (if y mod 100 = 0 then 1 else 0)"
    using div_step [of 100 "y - 1901"] unfolding s100 mod_shift by simp
  have 400: "(y - 1601 + 1) div 400 = (y - 1601) div 400 + (if y mod 400 = 0 then 1 else 0)"
    using div_step [of 400 "y - 1601"] unfolding s400 mod_shift by simp
  have m1: "y mod 100 = 0 \<Longrightarrow> y mod 4 = 0"
    by (rule mod_dvd_trans [of y 100 4]) simp_all
  have m2: "y mod 400 = 0 \<Longrightarrow> y mod 100 = 0"
    by (rule mod_dvd_trans [of y 400 100]) simp_all
  have r: "y + 1 - 1969 = y - 1969 + 1" "y + 1 - 1901 = y - 1901 + 1" "y + 1 - 1601 = y - 1601 + 1"
    by simp_all
  show ?thesis
    unfolding DayFromYear_def DaysInYear_def r 4 100 400 using m1 m2 by auto
qed


lemma DayFromYear_prev: "DayFromYear (y - 1) = DayFromYear y - DaysInYear (y - 1)"
  using DayFromYear_next [of "y - 1"] by simp

lemma DayFromYear_estimate:
  fixes d :: int
  defines "q \<equiv> (400 * d) div 146097"
  shows "400 * DayFromYear (1970 + q) \<le> 400 * d + 589"
    and "400 * d \<le> 400 * DayFromYear (1970 + q) + 146602"
proof -
  define a where "a = (q + 1) div 4"
  define b where "b = (q + 69) div 100"
  define c where "c = (q + 369) div 400"
  have D: "DayFromYear (1970 + q) = 365 * q + a - b + c"
    unfolding DayFromYear_def a_def b_def c_def by (simp add: algebra_simps)
  have q: "146097 * q \<le> 400 * d" "400 * d < 146097 * q + 146097"
    unfolding q_def using div_bounds [of 146097 "400 * d"] by simp_all
  have a: "4 * a \<le> q + 1" "q + 1 < 4 * a + 4"
    unfolding a_def using div_bounds [of 4 "q + 1"] by simp_all
  have b: "100 * b \<le> q + 69" "q + 69 < 100 * b + 100"
    unfolding b_def using div_bounds [of 100 "q + 69"] by simp_all
  have c: "400 * c \<le> q + 369" "q + 369 < 400 * c + 400"
    unfolding c_def using div_bounds [of 400 "q + 369"] by simp_all
  have a': "400 * a \<le> 100 * q + 100" "100 * q - 200 \<le> 400 * a" using a by linarith+
  have b': "400 * b \<le> 4 * q + 276" "4 * q - 120 \<le> 400 * b" using b by linarith+
  have c': "400 * c \<le> q + 369" "q - 30 \<le> 400 * c" using c by linarith+
  have E: "400 * (365 * q + a - b + c) = 146000 * q + 400 * a - 400 * b + 400 * c"
    by (simp add: algebra_simps)
  show "400 * DayFromYear (1970 + q) \<le> 400 * d + 589"
    unfolding D E using q a' b' c' by linarith
  show "400 * d \<le> 400 * DayFromYear (1970 + q) + 146602"
    unfolding D E using q a' b' c' by linarith
qed

lemma YearFromDay_bounds:
  "DayFromYear (YearFromDay d) \<le> d \<and> d < DayFromYear (YearFromDay d + 1)"
proof -
  define y where "y = 1970 + (400 * d) div 146097"
  have e1: "400 * DayFromYear y \<le> 400 * d + 589"
    and e2: "400 * d \<le> 400 * DayFromYear y + 146602"
    unfolding y_def using DayFromYear_estimate [of d] by simp_all
  have Y: "YearFromDay d =
      (if d < DayFromYear y then y - 1 else if DayFromYear (y + 1) \<le> d then y + 1 else y)"
    unfolding YearFromDay_def y_def Let_def by simp
  consider "d < DayFromYear y" | "DayFromYear (y + 1) \<le> d"
    | "DayFromYear y \<le> d" "d < DayFromYear (y + 1)" by linarith
  then show ?thesis
  proof cases
    case 1
    have "DayFromYear (y - 1) \<le> d"
      using DayFromYear_prev [of y] DaysInYear_cases [of "y - 1"] e1 by linarith
    then show ?thesis using 1 Y by simp
  next
    case 2
    have n: "DayFromYear (y + 1) = DayFromYear y + DaysInYear y"
      by (rule DayFromYear_next)
    have "DayFromYear (y + 1 + 1) = DayFromYear (y + 1) + DaysInYear (y + 1)"
      by (rule DayFromYear_next)
    then have "d < DayFromYear (y + 1 + 1)"
      using n DaysInYear_cases [of y] DaysInYear_cases [of "y + 1"] e2 by linarith
    moreover have "\<not> d < DayFromYear y"
      using 2 n DaysInYear_cases [of y] by linarith
    ultimately show ?thesis using 2 Y by simp
  next
    case 3
    then show ?thesis using Y by simp
  qed
qed

lemma DayFromYear_mono: "a \<le> b \<Longrightarrow> DayFromYear a \<le> DayFromYear b"
proof (induction b rule: int_ge_induct)
  case base
  show ?case by simp
next
  case (step i)
  then show ?case
    using DayFromYear_next [of i] DaysInYear_cases [of i] by linarith
qed

lemma YearFromDay_unique:
  assumes "DayFromYear y \<le> d" "d < DayFromYear (y + 1)"
  shows "YearFromDay d = y"
proof (rule ccontr)
  assume ne: "YearFromDay d \<noteq> y"
  define z where "z = YearFromDay d"
  have z: "DayFromYear z \<le> d" "d < DayFromYear (z + 1)"
    unfolding z_def using YearFromDay_bounds [of d] by simp_all
  consider "z + 1 \<le> y" | "y + 1 \<le> z" using ne unfolding z_def by linarith
  then show False
  proof cases
    case 1
    then show False using DayFromYear_mono [of "z + 1" y] z assms by linarith
  next
    case 2
    then show False using DayFromYear_mono [of "y + 1" z] z assms by linarith
  qed
qed





lemma DaysBeforeMonth_leap:
  "DaysBeforeMonth (YearFromTime t) m =
     (let l = InLeapYear t
      in if m = 0 then 0 else if m = 1 then 31 else if m = 2 then 59 + l
         else if m = 3 then 90 + l else if m = 4 then 120 + l else if m = 5 then 151 + l
         else if m = 6 then 181 + l else if m = 7 then 212 + l else if m = 8 then 243 + l
         else if m = 9 then 273 + l else if m = 10 then 304 + l else 334 + l)"
  unfolding DaysBeforeMonth_def InLeapYear_def ..

lemma date_in_month:
  "DaysBeforeMonth (YearFromTime t) (MonthFromTime t) + DateFromTime t - 1 = DayWithinYear t"
  unfolding DaysBeforeMonth_leap DateFromTime_def MonthFromTime_def Let_def
  by simp




lemma month_cases:
  fixes m :: int
  assumes "0 \<le> m" "m \<le> 11"
  shows "m = 0 \<or> m = 1 \<or> m = 2 \<or> m = 3 \<or> m = 4 \<or> m = 5 \<or> m = 6
      \<or> m = 7 \<or> m = 8 \<or> m = 9 \<or> m = 10 \<or> m = 11"
  using assms by presburger

lemma DaysBeforeMonth_range:
  assumes "0 \<le> m" "m \<le> 11" "1 \<le> dd" "dd \<le> DaysInMonth y m"
  shows "0 \<le> DaysBeforeMonth y m + dd - 1 \<and> DaysBeforeMonth y m + dd - 1 < DaysInYear y"
proof -
  show ?thesis
    using month_cases [OF assms(1,2)] assms(3,4) DaysInYear_cases [of y]
    by (elim disjE) (simp_all add: DaysInMonth_def DaysBeforeMonth_def)
qed

text \<open>The year, month and day of the day number that \<open>MakeDay\<close> gives a calendar date.\<close>

lemma civil_of_MakeDay:
  assumes "0 \<le> m" "m \<le> 11" "1 \<le> dd" "dd \<le> DaysInMonth y m" "Day t = MakeDay y m dd"
  shows "YearFromTime t = y" "MonthFromTime t = m" "DateFromTime t = dd"
proof -
  have md: "m div 12 = 0" "m mod 12 = m" using assms(1,2) by simp_all
  have day: "Day t = DayFromYear y + (DaysBeforeMonth y m + dd - 1)"
    unfolding assms(5) MakeDay_def Let_def md by simp
  have r: "0 \<le> DaysBeforeMonth y m + dd - 1" "DaysBeforeMonth y m + dd - 1 < DaysInYear y"
    using DaysBeforeMonth_range [OF assms(1-4)] by simp_all
  show Y: "YearFromTime t = y"
    unfolding YearFromTime_def
    by (rule YearFromDay_unique) (use day r DayFromYear_next [of y] in linarith)+
  have w: "DayWithinYear t = DaysBeforeMonth y m + dd - 1"
    unfolding DayWithinYear_def Y day by simp
  have l: "InLeapYear t = (if DaysInYear y = 366 then 1 else 0)"
    unfolding InLeapYear_def Y ..
  show M: "MonthFromTime t = m"
    using month_cases [OF assms(1,2)] assms(3,4) DaysInYear_cases [of y]
    by (elim disjE) (simp_all add: MonthFromTime_def w l DaysInMonth_def DaysBeforeMonth_def)
  show "DateFromTime t = dd"
    using date_in_month [of t] unfolding Y M w by simp
qed



















lemma digit_val_range:
  assumes "is_digit c"
  shows "0 \<le> digit_val c" "digit_val c \<le> 9"
  using assms by (simp_all add: is_digit_def digit_val_def)















section \<open>Date strings in calendar order\<close>

lemma js_less_Cons:
  "js_less (x # xs) (y # ys) \<longleftrightarrow> (of_char x :: nat) < of_char y \<or> (x = y \<and> js_less xs ys)"
proof -
  have "(of_char x :: nat) = of_char y \<longleftrightarrow> x = y" by simp
  then show ?thesis by auto
qed

lemma digit_compare:
  assumes "is_digit a" "is_digit b"
  shows "(of_char a :: nat) < of_char b \<longleftrightarrow> digit_val a < digit_val b"
    and "a = b \<longleftrightarrow> digit_val a = digit_val b"
proof -
  show "(of_char a :: nat) < of_char b \<longleftrightarrow> digit_val a < digit_val b"
    by (simp add: digit_val_def)
  have "digit_val a = digit_val b \<longleftrightarrow> (of_char a :: nat) = of_char b"
    by (simp add: digit_val_def)
  then show "a = b \<longleftrightarrow> digit_val a = digit_val b" by simp
qed

lemma lex_base:
  fixes B h h' r r' :: int
  assumes "0 \<le> r" "r < B" "0 \<le> r'" "r' < B"
  shows "(h < h' \<or> (h = h' \<and> (r < r' \<or> (r = r' \<and> R))))
     \<longleftrightarrow> (B * h + r < B * h' + r' \<or> (B * h + r = B * h' + r' \<and> R))"
proof -
  have B: "0 \<le> B" using assms by linarith
  consider "h < h'" | "h = h'" | "h' < h" by linarith
  then show ?thesis
  proof cases
    case 1
    then have "h + 1 \<le> h'" by simp
    then have "B * (h + 1) \<le> B * h'" using B by (rule mult_left_mono)
    then have "B * h + B \<le> B * h'" by (simp add: algebra_simps)
    then have "B * h + r < B * h' + r'" using assms by linarith
    then show ?thesis using 1 by simp
  next
    case 2
    then show ?thesis by auto
  next
    case 3
    then have "h' + 1 \<le> h" by simp
    then have "B * (h' + 1) \<le> B * h" using B by (rule mult_left_mono)
    then have "B * h' + B \<le> B * h" by (simp add: algebra_simps)
    then have "B * h' + r' < B * h + r" using assms by linarith
    then show ?thesis using 3 by auto
  qed
qed

lemma list_10:
  assumes "length s = 10"
  shows "s = [s ! 0, s ! 1, s ! 2, s ! 3, s ! 4, s ! 5, s ! 6, s ! 7, s ! 8, s ! 9]"
proof (rule nth_equalityI)
  show "length s = length [s ! 0, s ! 1, s ! 2, s ! 3, s ! 4, s ! 5, s ! 6, s ! 7, s ! 8, s ! 9]"
    using assms by simp
  fix i assume "i < length s"
  then have i: "i < 10" using assms by simp
  then have "i = 0 \<or> i = 1 \<or> i = 2 \<or> i = 3 \<or> i = 4 \<or> i = 5 \<or> i = 6 \<or> i = 7 \<or> i = 8 \<or> i = 9"
    by presburger
  then show "s ! i = [s ! 0, s ! 1, s ! 2, s ! 3, s ! 4, s ! 5, s ! 6, s ! 7, s ! 8, s ! 9] ! i"
    by (elim disjE) simp_all
qed

lemma new_Date_fields:
  assumes "new_Date s = Some t"
  defines "y \<equiv> 1000 * digit_val (s ! 0) + 100 * digit_val (s ! 1) + 10 * digit_val (s ! 2) + digit_val (s ! 3)"
    and "m \<equiv> 10 * digit_val (s ! 5) + digit_val (s ! 6)"
    and "dd \<equiv> 10 * digit_val (s ! 8) + digit_val (s ! 9)"
  shows "length s = 10 \<and> s ! 4 = CHR ''-'' \<and> s ! 7 = CHR ''-''
         \<and> is_digit (s ! 0) \<and> is_digit (s ! 1) \<and> is_digit (s ! 2) \<and> is_digit (s ! 3)
         \<and> is_digit (s ! 5) \<and> is_digit (s ! 6) \<and> is_digit (s ! 8) \<and> is_digit (s ! 9)"
    and "1 \<le> m \<and> m \<le> 12 \<and> 1 \<le> dd \<and> dd \<le> DaysInMonth y (m - 1)"
    and "t = MakeDay y (m - 1) dd * msPerDay"
proof -
  show shape: "length s = 10 \<and> s ! 4 = CHR ''-'' \<and> s ! 7 = CHR ''-''
         \<and> is_digit (s ! 0) \<and> is_digit (s ! 1) \<and> is_digit (s ! 2) \<and> is_digit (s ! 3)
         \<and> is_digit (s ! 5) \<and> is_digit (s ! 6) \<and> is_digit (s ! 8) \<and> is_digit (s ! 9)"
    using assms(1) unfolding new_Date_def by (meson option.distinct(1))
  then have v: "new_Date s =
      (if 1 \<le> m \<and> m \<le> 12 \<and> 1 \<le> dd \<and> dd \<le> DaysInMonth y (m - 1)
       then TimeClip (MakeDate (MakeDay y (m - 1) dd) 0) else None)"
    unfolding new_Date_def Let_def y_def m_def dd_def by (simp only: simp_thms if_True)
  show valid: "1 \<le> m \<and> m \<le> 12 \<and> 1 \<le> dd \<and> dd \<le> DaysInMonth y (m - 1)"
  proof (rule ccontr)
    assume "\<not> ?thesis"
    then have "new_Date s = None" unfolding v by (simp only: if_False)
    then show False using assms(1) by simp
  qed
  then have "TimeClip (MakeDate (MakeDay y (m - 1) dd) 0) = Some t"
    using v assms(1) by simp
  then show "t = MakeDay y (m - 1) dd * msPerDay"
    by (simp add: TimeClip_def MakeDate_def split: if_splits)
qed

lemma DaysInMonth_min:
  assumes "0 \<le> a" "a \<le> 11"
  shows "28 \<le> DaysInMonth y a"
  using month_cases [OF assms] DaysInYear_cases [of y]
  by (elim disjE) (simp_all add: DaysInMonth_def DaysBeforeMonth_def)

lemma DaysBeforeMonth_next:
  assumes "0 \<le> a" "a \<le> 10"
  shows "DaysBeforeMonth y (a + 1) = DaysBeforeMonth y a + DaysInMonth y a"
  using assms by (simp add: DaysInMonth_def)

lemma DaysBeforeMonth_mono:
  assumes "0 \<le> a" "a \<le> b" "b \<le> 11"
  shows "DaysBeforeMonth y a \<le> DaysBeforeMonth y b"
  using assms(2,3)
proof (induction b rule: int_ge_induct)
  case base
  show ?case by simp
next
  case (step i)
  have "DaysBeforeMonth y (i + 1) = DaysBeforeMonth y i + DaysInMonth y i"
    by (rule DaysBeforeMonth_next) (use step assms(1) in linarith)+
  moreover have "28 \<le> DaysInMonth y i"
    by (rule DaysInMonth_min) (use step assms(1) in linarith)+
  ultimately show ?case using step by linarith
qed

text \<open>Later calendar dates have later day numbers.\<close>

lemma MakeDay_strict:
  assumes a: "1 \<le> m" "m \<le> 12" "1 \<le> d" "d \<le> DaysInMonth y (m - 1)"
    and b: "1 \<le> m'" "m' \<le> 12" "1 \<le> d'" "d' \<le> DaysInMonth y' (m' - 1)"
    and lt: "y < y' \<or> (y = y' \<and> (m < m' \<or> (m = m' \<and> d < d')))"
  shows "MakeDay y (m - 1) d < MakeDay y' (m' - 1) d'"
proof -
  have md: "(m - 1) div 12 = 0" "(m - 1) mod 12 = m - 1" using a by simp_all
  have md': "(m' - 1) div 12 = 0" "(m' - 1) mod 12 = m' - 1" using b by simp_all
  have e: "MakeDay y (m - 1) d = DayFromYear y + (DaysBeforeMonth y (m - 1) + d - 1)"
    unfolding MakeDay_def Let_def md by simp
  have e': "MakeDay y' (m' - 1) d' = DayFromYear y' + (DaysBeforeMonth y' (m' - 1) + d' - 1)"
    unfolding MakeDay_def Let_def md' by simp
  have r: "0 \<le> DaysBeforeMonth y (m - 1) + d - 1" "DaysBeforeMonth y (m - 1) + d - 1 < DaysInYear y"
    using DaysBeforeMonth_range [of "m - 1" d y] a by simp_all
  have r': "0 \<le> DaysBeforeMonth y' (m' - 1) + d' - 1"
    using DaysBeforeMonth_range [of "m' - 1" d' y'] b by simp_all
  consider "y < y'" | "y = y'" "m < m'" | "y = y'" "m = m'" "d < d'" using lt by blast
  then show ?thesis
  proof cases
    case 1
    then have "y + 1 \<le> y'" by simp
    then have "DayFromYear (y + 1) \<le> DayFromYear y'" by (rule DayFromYear_mono)
    then show ?thesis using e e' r r' DayFromYear_next [of y] by linarith
  next
    case 2
    have n: "DaysBeforeMonth y (m - 1 + 1) = DaysBeforeMonth y (m - 1) + DaysInMonth y (m - 1)"
      by (rule DaysBeforeMonth_next) (use a 2 b in linarith)+
    have "DaysBeforeMonth y (m - 1 + 1) \<le> DaysBeforeMonth y (m' - 1)"
      by (rule DaysBeforeMonth_mono) (use a 2 b in linarith)+
    moreover have "MakeDay y' (m' - 1) d' = DayFromYear y + (DaysBeforeMonth y (m' - 1) + d' - 1)"
      using e' 2(1) by simp
    ultimately show ?thesis using e n a(4) b(3) by linarith
  next
    case 3
    then show ?thesis using e e' by simp
  qed
qed

lemma MakeDay_lex:
  assumes a: "1 \<le> m" "m \<le> 12" "1 \<le> d" "d \<le> DaysInMonth y (m - 1)"
    and b: "1 \<le> m'" "m' \<le> 12" "1 \<le> d'" "d' \<le> DaysInMonth y' (m' - 1)"
  shows "(y < y' \<or> (y = y' \<and> (m < m' \<or> (m = m' \<and> d < d'))))
     \<longleftrightarrow> MakeDay y (m - 1) d < MakeDay y' (m' - 1) d'"
proof
  assume "y < y' \<or> (y = y' \<and> (m < m' \<or> (m = m' \<and> d < d')))"
  then show "MakeDay y (m - 1) d < MakeDay y' (m' - 1) d'" by (rule MakeDay_strict [OF a b])
next
  assume lt: "MakeDay y (m - 1) d < MakeDay y' (m' - 1) d'"
  show "y < y' \<or> (y = y' \<and> (m < m' \<or> (m = m' \<and> d < d')))"
  proof (rule ccontr)
    assume n: "\<not> ?thesis"
    then consider "y = y'" "m = m'" "d = d'"
      | "y' < y \<or> (y' = y \<and> (m' < m \<or> (m' = m \<and> d' < d)))" by linarith
    then show False
    proof cases
      case 1
      then show False using lt by simp
    next
      case 2
      then have "MakeDay y' (m' - 1) d' < MakeDay y (m - 1) d" by (rule MakeDay_strict [OF b a])
      then show False using lt by simp
    qed
  qed
qed

lemma js_less_date_strings:
  assumes a: "length a = 10" "a ! 4 = CHR ''-''" "a ! 7 = CHR ''-''"
      "is_digit (a ! 0)" "is_digit (a ! 1)" "is_digit (a ! 2)" "is_digit (a ! 3)"
      "is_digit (a ! 5)" "is_digit (a ! 6)" "is_digit (a ! 8)" "is_digit (a ! 9)"
    and b: "length b = 10" "b ! 4 = CHR ''-''" "b ! 7 = CHR ''-''"
      "is_digit (b ! 0)" "is_digit (b ! 1)" "is_digit (b ! 2)" "is_digit (b ! 3)"
      "is_digit (b ! 5)" "is_digit (b ! 6)" "is_digit (b ! 8)" "is_digit (b ! 9)"
  defines "y \<equiv> 1000 * digit_val (a ! 0) + 100 * digit_val (a ! 1) + 10 * digit_val (a ! 2) + digit_val (a ! 3)"
    and "m \<equiv> 10 * digit_val (a ! 5) + digit_val (a ! 6)"
    and "d \<equiv> 10 * digit_val (a ! 8) + digit_val (a ! 9)"
    and "y' \<equiv> 1000 * digit_val (b ! 0) + 100 * digit_val (b ! 1) + 10 * digit_val (b ! 2) + digit_val (b ! 3)"
    and "m' \<equiv> 10 * digit_val (b ! 5) + digit_val (b ! 6)"
    and "d' \<equiv> 10 * digit_val (b ! 8) + digit_val (b ! 9)"
  shows "js_less a b \<longleftrightarrow> y < y' \<or> (y = y' \<and> (m < m' \<or> (m = m' \<and> d < d')))"
proof -
  define A where "A = (\<lambda>i. digit_val (a ! i))"
  define B where "B = (\<lambda>i. digit_val (b ! i))"
  have rA: "0 \<le> A 0" "A 0 \<le> 9" "0 \<le> A 1" "A 1 \<le> 9" "0 \<le> A 2" "A 2 \<le> 9" "0 \<le> A 3" "A 3 \<le> 9"
    "0 \<le> A 5" "A 5 \<le> 9" "0 \<le> A 6" "A 6 \<le> 9" "0 \<le> A 8" "A 8 \<le> 9" "0 \<le> A 9" "A 9 \<le> 9"
    unfolding A_def using a by (simp_all add: digit_val_range)
  have rB: "0 \<le> B 0" "B 0 \<le> 9" "0 \<le> B 1" "B 1 \<le> 9" "0 \<le> B 2" "B 2 \<le> 9" "0 \<le> B 3" "B 3 \<le> 9"
    "0 \<le> B 5" "B 5 \<le> 9" "0 \<le> B 6" "B 6 \<le> 9" "0 \<le> B 8" "B 8 \<le> 9" "0 \<le> B 9" "B 9 \<le> 9"
    unfolding B_def using b by (simp_all add: digit_val_range)
  have lt: "(of_char (a ! i) :: nat) < of_char (b ! i) \<longleftrightarrow> A i < B i"
    if "is_digit (a ! i)" "is_digit (b ! i)" for i
    unfolding A_def B_def by (rule digit_compare(1) [OF that])
  have eq: "a ! i = b ! i \<longleftrightarrow> A i = B i"
    if "is_digit (a ! i)" "is_digit (b ! i)" for i
    unfolding A_def B_def by (rule digit_compare(2) [OF that])
  have sep: "\<not> (of_char (a ! 4) :: nat) < of_char (b ! 4)" "a ! 4 = b ! 4"
    "\<not> (of_char (a ! 7) :: nat) < of_char (b ! 7)" "a ! 7 = b ! 7"
    using a(2,3) b(2,3) by simp_all
  have "js_less a b \<longleftrightarrow>
      js_less [a ! 0, a ! 1, a ! 2, a ! 3, a ! 4, a ! 5, a ! 6, a ! 7, a ! 8, a ! 9]
              [b ! 0, b ! 1, b ! 2, b ! 3, b ! 4, b ! 5, b ! 6, b ! 7, b ! 8, b ! 9]"
    using list_10 [OF a(1)] list_10 [OF b(1)] by simp
  also have "\<dots> \<longleftrightarrow>
      (A 0 < B 0 \<or> (A 0 = B 0 \<and> (A 1 < B 1 \<or> (A 1 = B 1 \<and>
      (A 2 < B 2 \<or> (A 2 = B 2 \<and> (A 3 < B 3 \<or> (A 3 = B 3 \<and>
      (A 5 < B 5 \<or> (A 5 = B 5 \<and> (A 6 < B 6 \<or> (A 6 = B 6 \<and>
      (A 8 < B 8 \<or> (A 8 = B 8 \<and> (A 9 < B 9 \<or> (A 9 = B 9 \<and> False))))))))))))))))"
    unfolding js_less_Cons js_less.simps(1)
    by (simp only: sep simp_thms order_less_irrefl
        lt [OF a(4) b(4)] lt [OF a(5) b(5)] lt [OF a(6) b(6)] lt [OF a(7) b(7)]
        lt [OF a(8) b(8)] lt [OF a(9) b(9)] lt [OF a(10) b(10)] lt [OF a(11) b(11)]
        eq [OF a(4) b(4)] eq [OF a(5) b(5)] eq [OF a(6) b(6)] eq [OF a(7) b(7)]
        eq [OF a(8) b(8)] eq [OF a(9) b(9)] eq [OF a(10) b(10)] eq [OF a(11) b(11)])
  also have "\<dots> \<longleftrightarrow>
      (A 0 < B 0 \<or> (A 0 = B 0 \<and> (A 1 < B 1 \<or> (A 1 = B 1 \<and>
      (A 2 < B 2 \<or> (A 2 = B 2 \<and> (A 3 < B 3 \<or> (A 3 = B 3 \<and>
      (A 5 < B 5 \<or> (A 5 = B 5 \<and> (A 6 < B 6 \<or> (A 6 = B 6 \<and>
      (10 * A 8 + A 9 < 10 * B 8 + B 9 \<or> (10 * A 8 + A 9 = 10 * B 8 + B 9 \<and> False))))))))))))))"
    by (subst lex_base [of "A 9" 10 "B 9" "A 8" "B 8" False]) (use rA rB in simp_all)
  also have "\<dots> \<longleftrightarrow>
      (A 0 < B 0 \<or> (A 0 = B 0 \<and> (A 1 < B 1 \<or> (A 1 = B 1 \<and>
      (A 2 < B 2 \<or> (A 2 = B 2 \<and> (A 3 < B 3 \<or> (A 3 = B 3 \<and>
      (A 5 < B 5 \<or> (A 5 = B 5 \<and> (A 6 < B 6 \<or> (A 6 = B 6 \<and> d < d'))))))))))))"
    unfolding d_def d'_def A_def B_def by simp
  also have "\<dots> \<longleftrightarrow>
      (A 0 < B 0 \<or> (A 0 = B 0 \<and> (A 1 < B 1 \<or> (A 1 = B 1 \<and>
      (A 2 < B 2 \<or> (A 2 = B 2 \<and> (A 3 < B 3 \<or> (A 3 = B 3 \<and>
      (10 * A 5 + A 6 < 10 * B 5 + B 6 \<or> (10 * A 5 + A 6 = 10 * B 5 + B 6 \<and> d < d'))))))))))"
    by (subst lex_base [of "A 6" 10 "B 6" "A 5" "B 5" "d < d'"]) (use rA rB in simp_all)
  also have "\<dots> \<longleftrightarrow>
      (A 0 < B 0 \<or> (A 0 = B 0 \<and> (A 1 < B 1 \<or> (A 1 = B 1 \<and>
      (A 2 < B 2 \<or> (A 2 = B 2 \<and> (A 3 < B 3 \<or> (A 3 = B 3 \<and>
      (m < m' \<or> (m = m' \<and> d < d'))))))))))"
    unfolding m_def m'_def A_def B_def by simp
  also have "\<dots> \<longleftrightarrow>
      (A 0 < B 0 \<or> (A 0 = B 0 \<and> (A 1 < B 1 \<or> (A 1 = B 1 \<and>
      (10 * A 2 + A 3 < 10 * B 2 + B 3 \<or> (10 * A 2 + A 3 = 10 * B 2 + B 3 \<and>
      (m < m' \<or> (m = m' \<and> d < d'))))))))"
    by (subst lex_base [of "A 3" 10 "B 3" "A 2" "B 2" "m < m' \<or> (m = m' \<and> d < d')"])
      (use rA rB in simp_all)
  also have "\<dots> \<longleftrightarrow>
      (10 * A 0 + A 1 < 10 * B 0 + B 1 \<or> (10 * A 0 + A 1 = 10 * B 0 + B 1 \<and>
      (10 * A 2 + A 3 < 10 * B 2 + B 3 \<or> (10 * A 2 + A 3 = 10 * B 2 + B 3 \<and>
      (m < m' \<or> (m = m' \<and> d < d'))))))"
    by (subst lex_base [of "A 1" 10 "B 1" "A 0" "B 0"
          "10 * A 2 + A 3 < 10 * B 2 + B 3 \<or> (10 * A 2 + A 3 = 10 * B 2 + B 3 \<and>
            (m < m' \<or> (m = m' \<and> d < d')))"])
      (use rA rB in simp_all)
  also have "\<dots> \<longleftrightarrow>
      (100 * (10 * A 0 + A 1) + (10 * A 2 + A 3) < 100 * (10 * B 0 + B 1) + (10 * B 2 + B 3)
       \<or> (100 * (10 * A 0 + A 1) + (10 * A 2 + A 3) = 100 * (10 * B 0 + B 1) + (10 * B 2 + B 3)
          \<and> (m < m' \<or> (m = m' \<and> d < d'))))"
    by (rule lex_base) (use rA rB in linarith)+
  also have "100 * (10 * A 0 + A 1) + (10 * A 2 + A 3) = y"
    unfolding y_def A_def by simp
  also have "100 * (10 * B 0 + B 1) + (10 * B 2 + B 3) = y'"
    unfolding y'_def B_def by simp
  finally show ?thesis .
qed

text \<open>Valid date strings compare as their dates do.\<close>

lemma js_less_iff_earlier:
  assumes a: "new_Date a = Some ta" and b: "new_Date b = Some tb"
  shows "js_less a b \<longleftrightarrow> ta < tb"
proof -
  define y where "y = 1000 * digit_val (a ! 0) + 100 * digit_val (a ! 1) + 10 * digit_val (a ! 2) + digit_val (a ! 3)"
  define m where "m = 10 * digit_val (a ! 5) + digit_val (a ! 6)"
  define d where "d = 10 * digit_val (a ! 8) + digit_val (a ! 9)"
  define y' where "y' = 1000 * digit_val (b ! 0) + 100 * digit_val (b ! 1) + 10 * digit_val (b ! 2) + digit_val (b ! 3)"
  define m' where "m' = 10 * digit_val (b ! 5) + digit_val (b ! 6)"
  define d' where "d' = 10 * digit_val (b ! 8) + digit_val (b ! 9)"
  note fa = new_Date_fields [OF a, folded y_def m_def d_def]
  note fb = new_Date_fields [OF b, folded y'_def m'_def d'_def]
  have "js_less a b \<longleftrightarrow> y < y' \<or> (y = y' \<and> (m < m' \<or> (m = m' \<and> d < d')))"
    unfolding y_def m_def d_def y'_def m'_def d'_def
    by (rule js_less_date_strings) (use fa(1) fb(1) in simp_all)
  also have "\<dots> \<longleftrightarrow> MakeDay y (m - 1) d < MakeDay y' (m' - 1) d'"
    by (rule MakeDay_lex) (use fa(2) fb(2) in simp_all)
  also have "\<dots> \<longleftrightarrow> ta < tb"
    unfolding fa(3) fb(3) by (simp add: msPerDay_def)
  finally show ?thesis .
qed

lemma js_le_iff_not_later:
  assumes "new_Date a = Some ta" "new_Date b = Some tb"
  shows "js_le a b \<longleftrightarrow> ta \<le> tb"
  unfolding js_le_def js_less_iff_earlier [OF assms(2,1)] by auto





section \<open>Sorting, rendering and printed counts\<close>

lemma forEach_item_eq:
  "forEach_item i data p =
     p\<lparr>gallery_children := gallery_children p @ map (\<lambda>(k, item). itemElement k item) (enumerate i data)\<rparr>"
  by (induction data arbitrary: i p) simp_all

lemma renderGallery_eq:
  "renderGallery data p =
     p\<lparr>loading_hidden := True, gallery_hidden := False, error_hidden := True,
        gallery_children := map (\<lambda>(k, item). itemElement k item) (enumerate 0 data)\<rparr>"
  by (simp add: renderGallery_def forEach_item_eq updateUIState_def truthy_def)

lemma mset_sort_insert: "mset (sort_insert cmp x xs) = add_mset x (mset xs)"
  by (induction xs) simp_all

lemma mset_array_sort: "mset (array_sort cmp xs) = mset xs"
  by (induction xs) (simp_all add: mset_sort_insert)

lemma set_array_sort: "set (array_sort cmp xs) = set xs"
  using mset_array_sort [of cmp xs] by (metis set_mset_mset)

lemma sorted_sort_insert:
  assumes "\<forall>y \<in> set ys. SortCompare (cmp x y) = k y - k x"
    and "sorted_wrt (\<lambda>a b. k b \<le> k a) ys"
  shows "sorted_wrt (\<lambda>a b. k b \<le> (k a :: int)) (sort_insert cmp x ys)"
  using assms
proof (induction ys)
  case Nil
  show ?case by simp
next
  case (Cons y ys)
  show ?case
  proof (cases "SortCompare (cmp x y) \<le> 0")
    case True
    then have "k y \<le> k x" using Cons.prems(1) by simp
    then have "\<forall>z \<in> set (y # ys). k z \<le> k x" using Cons.prems(2) by auto
    then show ?thesis using True Cons.prems(2) by simp
  next
    case False
    then have "k x \<le> k y" using Cons.prems(1) by simp
    moreover have "set (sort_insert cmp x ys) = insert x (set ys)"
      using mset_sort_insert [of cmp x ys] by (metis set_mset_mset set_mset_add_mset_insert)
    ultimately show ?thesis using False Cons by auto
  qed
qed

lemma sorted_array_sort:
  assumes "\<forall>x \<in> set xs. \<forall>y \<in> set xs. SortCompare (cmp x y) = k y - k x"
  shows "sorted_wrt (\<lambda>a b. k b \<le> (k a :: int)) (array_sort cmp xs)"
  using assms
proof (induction xs)
  case Nil
  show ?case by simp
next
  case (Cons x xs)
  have "sorted_wrt (\<lambda>a b. k b \<le> k a) (array_sort cmp xs)" using Cons by simp
  moreover have "\<forall>y \<in> set (array_sort cmp xs). SortCompare (cmp x y) = k y - k x"
    using Cons.prems by (simp add: set_array_sort)
  ultimately show ?case by (simp add: sorted_sort_insert)
qed

lemma stable_sort_insert:
  assumes "\<forall>y \<in> set ys. SortCompare (cmp x y) = k y - k x"
  shows "filter (\<lambda>e. k e = (v :: int)) (sort_insert cmp x ys) = filter (\<lambda>e. k e = v) (x # ys)"
  using assms by (induction ys) auto

lemma stable_array_sort:
  assumes "\<forall>x \<in> set xs. \<forall>y \<in> set xs. SortCompare (cmp x y) = k y - k x"
  shows "filter (\<lambda>e. k e = (v :: int)) (array_sort cmp xs) = filter (\<lambda>e. k e = v) xs"
  using assms
proof (induction xs)
  case Nil
  show ?case by simp
next
  case (Cons x xs)
  have "\<forall>y \<in> set (array_sort cmp xs). SortCompare (cmp x y) = k y - k x"
    using Cons.prems by (simp add: set_array_sort)
  then have "filter (\<lambda>e. k e = v) (sort_insert cmp x (array_sort cmp xs))
      = filter (\<lambda>e. k e = v) (x # array_sort cmp xs)"
    by (rule stable_sort_insert)
  then show ?case using Cons by simp
qed

lemma decimal_value_snoc: "decimal_value (s @ [c]) = 10 * decimal_value s + (of_char c - 48)"
  by (simp add: decimal_value_def)

lemma show_nat_value: "decimal_value (show_nat n) = n"
proof (induction n rule: show_nat.induct)
  case (1 n)
  show ?case
  proof (cases "n < 10")
    case True
    then show ?thesis
      by (subst show_nat.simps) (simp add: decimal_value_def digit_char_def)
  next
    case False
    have "decimal_value (show_nat n) =
        10 * decimal_value (show_nat (n div 10)) + (of_char (digit_char (n mod 10)) - 48)"
      using False by (subst show_nat.simps) (simp add: decimal_value_snoc)
    also have "\<dots> = 10 * (n div 10) + n mod 10"
      using 1 [OF False] by (simp add: digit_char_def)
    finally show ?thesis by simp
  qed
qed






lemma SortCompare_date_desc:
  assumes "new_Date (date a) \<noteq> None" "new_Date (date b) \<noteq> None"
  shows "SortCompare (date_desc a b) = the (new_Date (date b)) - the (new_Date (date a))"
  using assms by (auto simp: SortCompare_def date_desc_def)



section \<open>The claims\<close>




text \<open>
  C2. The start date should be 8 calendar days before the end date. Under a fixed offset
  it is (lemma \<open>getStartDate_fixed_zone\<close>); in New York, for the end date 2024-11-05, two
  days after the clocks went back, the function returns 2024-10-27, nine days before: the
  date is parsed and printed in UTC but moved in local time.
\<close>

theorem getStartDate_after_clock_change:
  "new_Date ''2024-11-05'' = Some 1730764800000
   \<and> date_text (1730764800000 - 8 * msPerDay) = ''2024-10-28''
   \<and> getStartDate (fixed_zone 0) ''2024-11-05'' = Inr ''2024-10-28''
   \<and> getStartDate new_york_2024 ''2024-11-05'' = Inr ''2024-10-27''"
proof -
  have a: "new_Date ''2024-11-05'' = Some 1730764800000" by code_simp
  have b: "date_text (1730764800000 - 8 * msPerDay) = ''2024-10-28''" by code_simp
  have c: "getStartDate (fixed_zone 0) ''2024-11-05'' = Inr ''2024-10-28''" by code_simp
  have d: "getStartDate new_york_2024 ''2024-11-05'' = Inr ''2024-10-27''" by code_simp
  show ?thesis by (intro conjI a b c d)
qed

text \<open>
  C3. The filter selects exactly the cached entries whose date lies between the computed
  start date and the end date, both inclusive, under the string comparison: the filtered
  array has the same entries, each as often, as the cache has in that range.
\<close>

theorem filteredData_selects_window:
  assumes "getStartDate tz E = Inr S"
  shows "mset (filteredData S E cache) =
      filter_mset (\<lambda>e. js_le S (date e) \<and> js_le (date e) E) (mset cache)"
  by (simp add: filteredData_def mset_array_sort js_le_def js_ge_def)

theorem filteredData_selects_window_witness:
  "getStartDate (fixed_zone 0) ''2024-01-09'' = Inr ''2024-01-01''
   \<and> mset (filteredData ''2024-01-01'' ''2024-01-09'' example_cache) =
       filter_mset (\<lambda>e. js_le ''2024-01-01'' (date e) \<and> js_le (date e) ''2024-01-09'')
         (mset example_cache)
   \<and> map date (filteredData ''2024-01-01'' ''2024-01-09'' example_cache) =
       [''2024-01-09'', ''2024-01-08'', ''2024-01-07'', ''2024-01-06'', ''2024-01-05'',
        ''2024-01-04'', ''2024-01-03'', ''2024-01-02'', ''2024-01-01'']"
proof -
  have s: "getStartDate (fixed_zone 0) ''2024-01-09'' = Inr ''2024-01-01''"
    by code_simp
  have d: "map date (filteredData ''2024-01-01'' ''2024-01-09'' example_cache) =
       [''2024-01-09'', ''2024-01-08'', ''2024-01-07'', ''2024-01-06'', ''2024-01-05'',
        ''2024-01-04'', ''2024-01-03'', ''2024-01-02'', ''2024-01-01'']"
    by code_simp
  show ?thesis
    using filteredData_selects_window [OF s, of example_cache] s d by simp
qed

text \<open>
  C4. When every cached date is a valid \<open>YYYY-MM-DD\<close> date, the filtered array is sorted
  by date, most recent first (by the string comparison of the dates, and by their time
  values alike), and entries of the same date keep the order they have in the cache.
\<close>

theorem filteredData_sorted_stable:
  assumes "getStartDate tz E = Inr S"
    and "\<forall>e \<in> set cache. new_Date (date e) \<noteq> None"
  shows "sorted_wrt (\<lambda>a b. js_le (date b) (date a)) (filteredData S E cache)
     \<and> sorted_wrt (\<lambda>a b. the (new_Date (date b)) \<le> the (new_Date (date a)))
           (filteredData S E cache)
     \<and> (\<forall>d. filter (\<lambda>e. date e = d) (filteredData S E cache) =
              filter (\<lambda>e. date e = d)
                (filter (\<lambda>e. js_le S (date e) \<and> js_le (date e) E) cache))"
proof -
  define k where "k = (\<lambda>e :: entry. the (new_Date (date e)))"
  define w where "w = filter (\<lambda>item. js_ge (date item) S \<and> js_le (date item) E) cache"
  have w': "w = filter (\<lambda>e. js_le S (date e) \<and> js_le (date e) E) cache"
    unfolding w_def js_ge_def js_le_def ..
  have c: "\<forall>x \<in> set w. \<forall>y \<in> set w. SortCompare (date_desc x y) = k y - k x"
    unfolding k_def w_def using assms(2) by (auto intro: SortCompare_date_desc)
  have f: "filteredData S E cache = array_sort date_desc w"
    unfolding filteredData_def w_def ..
  have sorted: "sorted_wrt (\<lambda>a b. k b \<le> k a) (array_sort date_desc w)"
    by (rule sorted_array_sort [OF c])
  have by_text: "sorted_wrt (\<lambda>a b. js_le (date b) (date a)) (array_sort date_desc w)"
  proof (rule sorted_wrt_mono_rel [OF _ sorted])
    fix x y assume "x \<in> set (array_sort date_desc w)" "y \<in> set (array_sort date_desc w)"
      and le: "k y \<le> k x"
    then have "x \<in> set cache" "y \<in> set cache" unfolding set_array_sort w_def by simp_all
    then have "new_Date (date x) \<noteq> None" "new_Date (date y) \<noteq> None"
      using assms(2) by simp_all
    then obtain tx ty where t: "new_Date (date x) = Some tx" "new_Date (date y) = Some ty"
      by blast
    show "js_le (date y) (date x)"
      using js_le_iff_not_later [OF t(2,1)] le unfolding k_def t by simp
  qed
  have stable: "filter (\<lambda>e. date e = d) (array_sort date_desc w) = filter (\<lambda>e. date e = d) w" for d
  proof -
    have split: "filter (\<lambda>e. date e = d) xs =
        filter (\<lambda>e. date e = d) (filter (\<lambda>e. k e = the (new_Date d)) xs)" for xs
      by (induction xs) (auto simp: k_def)
    have "filter (\<lambda>e. k e = the (new_Date d)) (array_sort date_desc w) =
        filter (\<lambda>e. k e = the (new_Date d)) w"
      by (rule stable_array_sort [OF c])
    then show ?thesis using split [of "array_sort date_desc w"] split [of w] by simp
  qed
  show ?thesis
    unfolding f w' [symmetric] using sorted by_text stable unfolding k_def by simp
qed

theorem filteredData_sorted_stable_witness:
  "getStartDate (fixed_zone 0) ''2024-01-09'' = Inr ''2024-01-01''
   \<and> new_Date ''2024-01-03'' = Some 1704240000000
   \<and> new_Date ''2024-01-05'' = Some 1704412800000
   \<and> map title (filteredData ''2024-01-01'' ''2024-01-09''
         [(example_entry ''2024-01-03'')\<lparr>title := ''first''\<rparr>,
          (example_entry ''2023-12-31'')\<lparr>title := ''outside''\<rparr>,
          (example_entry ''2024-01-05'')\<lparr>title := ''newest''\<rparr>,
          (example_entry ''2024-01-03'')\<lparr>title := ''second''\<rparr>]) =
       [''newest'', ''first'', ''second'']
   \<and> sorted_wrt (\<lambda>a b. js_le (date b) (date a))
         (filteredData ''2024-01-01'' ''2024-01-09''
           [(example_entry ''2024-01-03'')\<lparr>title := ''first''\<rparr>,
            (example_entry ''2023-12-31'')\<lparr>title := ''outside''\<rparr>,
            (example_entry ''2024-01-05'')\<lparr>title := ''newest''\<rparr>,
            (example_entry ''2024-01-03'')\<lparr>title := ''second''\<rparr>])"
proof -
  define cache where "cache =
         [(example_entry ''2024-01-03'')\<lparr>title := ''first''\<rparr>,
          (example_entry ''2023-12-31'')\<lparr>title := ''outside''\<rparr>,
          (example_entry ''2024-01-05'')\<lparr>title := ''newest''\<rparr>,
          (example_entry ''2024-01-03'')\<lparr>title := ''second''\<rparr>]"
  have s: "getStartDate (fixed_zone 0) ''2024-01-09'' = Inr ''2024-01-01''" by code_simp
  have a: "new_Date ''2024-01-03'' = Some 1704240000000" by code_simp
  have b: "new_Date ''2024-01-05'' = Some 1704412800000" by code_simp
  have c: "new_Date ''2023-12-31'' = Some 1703980800000" by code_simp
  have v: "\<forall>e \<in> set cache. new_Date (date e) \<noteq> None"
    by (simp add: cache_def example_entry_def a b c)
  have t: "map title (filteredData ''2024-01-01'' ''2024-01-09'' cache) =
       [''newest'', ''first'', ''second'']"
    unfolding cache_def by code_simp
  have "sorted_wrt (\<lambda>a b. js_le (date b) (date a))
         (filteredData ''2024-01-01'' ''2024-01-09'' cache)"
    using filteredData_sorted_stable [OF s v] by simp
  then show ?thesis using s a b t unfolding cache_def by simp
qed

text \<open>
  C5. When the filter for end date \<open>E\<close> yields fewer than 9 entries, the gallery container
  stays empty and hidden, and the error slot is shown with the message that names the
  number of entries found, printed in decimal.
\<close>

theorem insufficient_data_reports_count:
  assumes "getStartDate tz E = Inr S"
    and "length (filteredData S E (allAPODData p)) < 9"
  shows "\<exists>p'. filterAndRenderGallery tz E p = Inr p'
      \<and> gallery_children p' = []
      \<and> gallery_hidden p' \<and> loading_hidden p' \<and> \<not> error_hidden p'
      \<and> errorText p' = ''Only found '' @ show_nat (length (filteredData S E (allAPODData p)))
           @ '' entries. The selected date range might be too far in the past or data is missing.''
      \<and> decimal_value (show_nat (length (filteredData S E (allAPODData p))))
           = length (filteredData S E (allAPODData p))"
  using assms
  by (simp add: filterAndRenderGallery_def Let_def updateUIState_def truthy_def
      insufficient_message_def GALLERY_DAYS_def show_nat_value)

theorem insufficient_data_reports_count_witness:
  "getStartDate (fixed_zone 0) ''2024-01-05'' = Inr ''2023-12-28''
   \<and> length (filteredData ''2023-12-28'' ''2024-01-05'' (allAPODData (blank_page example_cache))) = 5
   \<and> (\<exists>p'. filterAndRenderGallery (fixed_zone 0) ''2024-01-05'' (blank_page example_cache) = Inr p'
        \<and> gallery_children p' = [] \<and> gallery_hidden p' \<and> \<not> error_hidden p'
        \<and> errorText p' = ''Only found 5 entries. The selected date range might be too far in the past or data is missing.'')"
proof -
  have s: "getStartDate (fixed_zone 0) ''2024-01-05'' = Inr ''2023-12-28''"
    by code_simp
  have n: "length (filteredData ''2023-12-28'' ''2024-01-05'' (allAPODData (blank_page example_cache))) = 5"
    by code_simp
  have t: "show_nat 5 = ''5''" by code_simp
  have lt: "length (filteredData ''2023-12-28'' ''2024-01-05'' (allAPODData (blank_page example_cache))) < 9"
    unfolding n by simp
  show ?thesis
    using insufficient_data_reports_count [OF s lt] s n unfolding n t by auto
qed




text \<open>
  C7 (as amended). The detail view shows the entry's title, date and explanation and
  becomes visible. For a video entry the media container holds one \<open>video-container\<close>
  frame embedding the entry's \<open>url\<close>; for any other entry it holds one image, of \<open>hdurl\<close>
  when that is present and not empty, of \<open>url\<close> when \<open>hdurl\<close> is missing or empty.
\<close>

theorem openModal_shows_entry:
  \<open>modalTitle (openModal item p) = title item
   \<and> modalDate (openModal item p) = date item
   \<and> modalExplanation (openModal item p) = explanation item
   \<and> modal_visible (openModal item p)
   \<and> (media_type item = ''video'' \<longrightarrow>
        modalMedia_children (openModal item p) =
          [Div ''video-container'' (''<iframe src="'' @ url item @ ''" allowfullscreen></iframe>'')])
   \<and> (media_type item \<noteq> ''video'' \<longrightarrow>
        (\<forall>u. hdurl item = Some u \<and> u \<noteq> [] \<longrightarrow>
           modalMedia_children (openModal item p) = [Img u (title item)])
        \<and> (hdurl item = None \<or> hdurl item = Some [] \<longrightarrow>
           modalMedia_children (openModal item p) = [Img (url item) (title item)]))\<close>
  by (auto simp: openModal_def js_or_def Let_def)

theorem openModal_shows_entry_witness:
  \<open>modalMedia_children (openModal (video_entry None) (blank_page [])) =
     [Div ''video-container'' ''<iframe src="https://example.org/embed/1" allowfullscreen></iframe>'']
   \<and> modalMedia_children (openModal (example_entry ''2024-01-01'') (blank_page [])) =
     [Img ''img/2024-01-01_hd.jpg'' ''Picture of 2024-01-01'']
   \<and> modalMedia_children
       (openModal ((example_entry ''2024-01-01'')\<lparr>hdurl := None\<rparr>) (blank_page [])) =
     [Img ''img/2024-01-01.jpg'' ''Picture of 2024-01-01'']
   \<and> modalTitle (openModal (example_entry ''2024-01-01'') (blank_page [])) = ''Picture of 2024-01-01''
   \<and> modalExplanation (openModal (example_entry ''2024-01-01'') (blank_page [])) = ''About 2024-01-01''\<close>
proof -
  have v: \<open>modalMedia_children (openModal (video_entry None) (blank_page [])) =
     [Div ''video-container'' ''<iframe src="https://example.org/embed/1" allowfullscreen></iframe>'']\<close>
    using openModal_shows_entry [of "video_entry None" "blank_page []"]
    by (simp add: video_entry_def)
  have h: "modalMedia_children (openModal (example_entry ''2024-01-01'') (blank_page [])) =
     [Img ''img/2024-01-01_hd.jpg'' ''Picture of 2024-01-01'']"
    using openModal_shows_entry [of "example_entry ''2024-01-01''" "blank_page []"]
    by (simp add: example_entry_def)
  have u: "modalMedia_children
       (openModal ((example_entry ''2024-01-01'')\<lparr>hdurl := None\<rparr>) (blank_page [])) =
     [Img ''img/2024-01-01.jpg'' ''Picture of 2024-01-01'']"
    using openModal_shows_entry [of "(example_entry ''2024-01-01'')\<lparr>hdurl := None\<rparr>" "blank_page []"]
    by (simp add: example_entry_def)
  have t: "modalTitle (openModal (example_entry ''2024-01-01'') (blank_page [])) = ''Picture of 2024-01-01''"
    "modalExplanation (openModal (example_entry ''2024-01-01'') (blank_page [])) = ''About 2024-01-01''"
    using openModal_shows_entry [of "example_entry ''2024-01-01''" "blank_page []"]
    by (simp_all add: example_entry_def)
  show ?thesis by (intro conjI v h u t)
qed

text \<open>
  C7 as stated fails: an image entry that has an \<open>hdurl\<close>, the empty string, is shown
  with its \<open>url\<close>.
\<close>

theorem empty_hdurl_counterexample:
  "media_type ((example_entry ''2024-01-01'')\<lparr>hdurl := Some []\<rparr>) \<noteq> ''video''
   \<and> hdurl ((example_entry ''2024-01-01'')\<lparr>hdurl := Some []\<rparr>) = Some []
   \<and> modalMedia_children
       (openModal ((example_entry ''2024-01-01'')\<lparr>hdurl := Some []\<rparr>) (blank_page [])) =
     [Img ''img/2024-01-01.jpg'' ''Picture of 2024-01-01'']
   \<and> modalMedia_children
       (openModal ((example_entry ''2024-01-01'')\<lparr>hdurl := Some []\<rparr>) (blank_page [])) \<noteq>
     [Img [] ''Picture of 2024-01-01'']"
  by (simp add: openModal_def js_or_def example_entry_def)

text \<open>
  C8. Dismissing the detail view clears the embedded media at once: after \<open>closeModal\<close>
  the media container has no child and the modal is not visible, whatever was shown before;
  in particular after any entry was opened, and whether the dismissal is the close action
  (\<open>closeModal\<close> itself), a click outside the content or the Escape key.
\<close>

theorem closeModal_clears_media:
  "modalMedia_children (closeModal p) = []
   \<and> \<not> modal_visible (closeModal p)
   \<and> modalMedia_children (closeModal (openModal item p)) = []
   \<and> modalMedia_children (on_modal_click True (openModal item p)) = []
   \<and> modalMedia_children (on_keydown ''Escape'' (openModal item p)) = []"
  by (simp add: closeModal_def on_modal_click_def on_keydown_def openModal_def Let_def)

text \<open>
  C9. Filtering leaves the cache as it was: whether \<open>filterAndRenderGallery\<close> returns or
  throws, the page it leaves has the same \<open>allAPODData\<close>, contents and order.
\<close>

theorem filterAndRenderGallery_keeps_cache:
  "(case filterAndRenderGallery tz E p of
      Inl (e, p') \<Rightarrow> allAPODData p' = allAPODData p
    | Inr p' \<Rightarrow> allAPODData p' = allAPODData p)"
  by (simp add: filterAndRenderGallery_def Let_def renderGallery_eq updateUIState_def
      split: sum.splits)




end
